theory Spec2Isabelle
  imports Complex_Main
begin

section \<open>Text utilities of the chunker\<close>

text \<open>
  Python strings are modelled as \<^typ>\<open>string\<close>, one \<^typ>\<open>char\<close> per code point
  (code points below 256). \<open>isspace\<close> is Python's \<open>str.isspace\<close> on that range, which is
  also what the regular expression class \<open>\s\<close> matches and what \<open>str.strip()\<close> removes.
\<close>

definition isspace :: "char \<Rightarrow> bool" where
  "isspace c =
     (let n = (of_char c :: nat)
      in (9 \<le> n \<and> n \<le> 13) \<or> (28 \<le> n \<and> n \<le> 32) \<or> n = 133 \<or> n = 160)"

text \<open>\<open>re.sub(r'\s+', ' ', text)\<close>: every maximal run of whitespace becomes one space.\<close>

function collapse_ws :: "string \<Rightarrow> string" where
  "collapse_ws [] = []"
| "collapse_ws (c # cs) =
     (if isspace c then CHR '' '' # collapse_ws (dropWhile isspace cs)
      else c # collapse_ws cs)"
  by pat_completeness auto
termination
  by (relation "measure length") (auto simp: less_Suc_eq_le length_dropWhile_le)

text \<open>\<open>str.strip()\<close>: leading and trailing whitespace removed.\<close>

definition strip :: "string \<Rightarrow> string" where
  "strip s = rev (dropWhile isspace (rev (dropWhile isspace s)))"

text \<open>The first statement of \<open>chunk_text\<close>:
  \<open>re.sub(r'\s+', ' ', text).strip()\<close>.\<close>

definition clean_text :: "string \<Rightarrow> string" where
  "clean_text t = strip (collapse_ws t)"

text \<open>No two whitespace characters are adjacent.\<close>

definition single_spaced :: "string \<Rightarrow> bool" where
  "single_spaced s = successively (\<lambda>a b. \<not> (isspace a \<and> isspace b)) s"

text \<open>
  Python's index adjustment for slices and for the \<open>start\<close>/\<open>end\<close> arguments of
  \<open>str.rfind\<close>: a negative index counts from the end, and the result is clipped to
  \<open>0 .. len\<close>.
\<close>

definition clip :: "int \<Rightarrow> int \<Rightarrow> nat" where
  "clip n i = nat (if i < 0 then max (i + n) 0 else min i n)"

text \<open>\<open>s[i:j]\<close>\<close>

definition slice :: "'a list \<Rightarrow> int \<Rightarrow> int \<Rightarrow> 'a list" where
  "slice xs i j =
     (let n = int (length xs); a = clip n i; b = clip n j
      in take (b - a) (drop a xs))"

text \<open>\<open>s.rfind(c, start, end)\<close> for a one-character \<open>c\<close>: the highest index in the
  adjusted range holding \<open>c\<close>, or \<open>-1\<close>.\<close>

definition rfind :: "string \<Rightarrow> char \<Rightarrow> int \<Rightarrow> int \<Rightarrow> int" where
  "rfind s c start end =
     (let n = int (length s); a = clip n start; b = clip n end
      in case filter (\<lambda>i. s ! i = c) (rev [a ..< b]) of
           [] \<Rightarrow> - 1
         | i # _ \<Rightarrow> int i)"

section \<open>Chunker: \<open>CardiologyVectorDB.chunk_text\<close>\<close>

text \<open>
  The \<open>while start < len(text)\<close> loop. It need not terminate for every \<open>overlap\<close>
  (the next \<open>start\<close> is \<open>end - overlap\<close>), so the loop is a partial function: \<open>None\<close> is
  a run that never returns.
\<close>

partial_function (option) chunk_loop ::
  "string \<Rightarrow> int \<Rightarrow> int \<Rightarrow> int \<Rightarrow> string list \<Rightarrow> string list option" where
  "chunk_loop text chunk_size overlap start chunks =
     (if start < int (length text) then
        (let end0 = start + chunk_size;
             end1 =
               (if end0 < int (length text) then
                  (let sentence_end = rfind text CHR ''.'' start end0
                   in if sentence_end > start + chunk_size div 2 then sentence_end + 1
                      else (let word_end = rfind text CHR '' '' start end0
                            in if word_end > start + chunk_size div 2 then word_end
                               else end0))
                else end0)
         in chunk_loop text chunk_size overlap
              (if end1 < int (length text) then end1 - overlap else end1)
              (chunks @ [strip (slice text start end1)]))
      else Some chunks)"

declare chunk_loop.simps [code]

definition chunk_text :: "string \<Rightarrow> int \<Rightarrow> int \<Rightarrow> string list option" where
  "chunk_text text0 chunk_size overlap =
     (let text = clean_text text0
      in if int (length text) \<le> chunk_size then Some [text]
         else chunk_loop text chunk_size overlap 0 [])"

section \<open>Data model\<close>

type_synonym path = string
type_synonym vector = "real list"

text \<open>
  The dictionaries that travel through the pipeline share their keys, so they are one
  record and its extensions: a page (\<open>load_pdf\<close>), a chunk (\<open>process_documents\<close>), a
  stored row (the columns handed to \<open>collection.insert\<close>), a search hit of the store and
  a formatted search result.
\<close>

text \<open>The key \<open>text\<close> of these dictionaries is the field \<open>doc_text\<close>.\<close>

record page_doc =
  doc_text :: string
  source :: string
  page_num :: nat

record chunk_doc = page_doc +
  chunk_id :: nat

record row = chunk_doc +
  embedding :: vector

record hit = chunk_doc +
  distance :: real

record search_result = chunk_doc +
  score :: real

text \<open>A file on disk: its bytes, whether \<open>open\<close> succeeds, and \<open>stat().st_mtime\<close>.
  \<open>os.path.getsize\<close> is the length of the content.\<close>

record file_node =
  content :: string
  readable :: bool
  st_mtime :: real

text \<open>
  One entry of \<open>processed_files\<close>. \<open>file_hash\<close> is optional because
  \<open>_is_file_processed\<close> reads it with \<open>.get("file_hash", "")\<close>. \<open>processed_date\<close> is
  written as \<open>str(st_mtime)\<close>; the model keeps the number that string renders.
\<close>

record entry =
  file_hash :: "string option"
  chunk_count :: nat
  processed_date :: real
  file_size :: nat

text \<open>What \<open>get_collection_stats\<close> returns (\<open>Entities n\<close> for a dictionary with
  \<open>total_entities\<close>, \<open>StatsError\<close> for \<open>{"error": ...}\<close>), and the empty dictionary of a
  fresh ledger.\<close>

datatype coll_stats = EmptyStats | Entities nat | StatsError

record metadata =
  processed_files :: "path \<rightharpoonup> entry"
  collection_stats :: coll_stats

text \<open>The JSON object that \<open>json.load\<close> returns: a ledger, or an object without the
  key \<open>processed_files\<close>, in which \<open>["processed_files"]\<close> raises \<open>KeyError\<close> and
  \<open>.get("processed_files", {})\<close> is the empty dictionary. A ledger file whose JSON value
  is not an object is outside the model.\<close>

datatype json_doc = Ledger metadata | NoProcessedFiles

text \<open>The ledger file on disk: absent, present but rejected by \<open>json.load\<close>, or holding a
  JSON document.\<close>

datatype ledger_file = Missing | Unparseable | Stored json_doc

datatype error = KeyError | FileNotFoundError | AttributeError

text \<open>
  The mutable world: the file system, the ledger file, the rows of the Milvus collection,
  whether \<open>collection.load()\<close> has been called on it, and the trace of texts sent to the
  document embedding API (one element per call of \<open>generate_embedding\<close>).
\<close>

record state =
  fs :: "path \<rightharpoonup> file_node"
  ledger_file :: ledger_file
  rows :: "row list"
  loaded :: bool
  embed_log :: "string list"

text \<open>
  The external collaborators, as parameters: \<open>os.path.abspath\<close>, the MD5 digest,
  PyPDF2's page extraction (\<open>None\<close>: it raises), the Gemini embedding calls (\<open>None\<close>: they
  raise), the store's search (\<open>None\<close>: it raises), and which store and ledger operations
  raise.
\<close>

record env =
  abspath :: "path \<Rightarrow> path"
  md5 :: "string \<Rightarrow> string"
  extract_pages :: "string \<Rightarrow> string list option"
  embed_content :: "string \<Rightarrow> vector option"
  embed_query :: "string \<Rightarrow> vector option"
  store_search :: "row list \<Rightarrow> vector \<Rightarrow> int \<Rightarrow> hit list option"
  insert_fails :: bool
  flush_fails :: bool
  load_fails :: bool
  stats_fails :: bool
  ledger_writable :: bool

section \<open>File ledger\<close>

text \<open>\<open>os.path.basename\<close>: what follows the last slash.\<close>

definition basename :: "path \<Rightarrow> string" where
  "basename p = rev (takeWhile (\<lambda>c. c \<noteq> CHR ''/'') (rev p))"

text \<open>\<open>_get_file_hash\<close>: the digest of the bytes, or the empty string when the file
  cannot be opened.\<close>

definition get_file_hash :: "env \<Rightarrow> path \<Rightarrow> state \<Rightarrow> string" where
  "get_file_hash e p s =
     (case fs s p of
        None \<Rightarrow> []
      | Some f \<Rightarrow> if readable f then md5 e (content f) else [])"

text \<open>\<open>_load_index_metadata\<close>\<close>

definition load_index_metadata :: "state \<Rightarrow> json_doc" where
  "load_index_metadata s =
     (case ledger_file s of
        Stored j \<Rightarrow> j
      | _ \<Rightarrow> Ledger \<lparr>processed_files = Map.empty, collection_stats = EmptyStats\<rparr>)"

text \<open>\<open>_save_index_metadata\<close>: a failed write is printed and swallowed.\<close>

definition save_index_metadata :: "env \<Rightarrow> metadata \<Rightarrow> state \<Rightarrow> state" where
  "save_index_metadata e m s =
     (if ledger_writable e then s\<lparr>ledger_file := Stored (Ledger m)\<rparr> else s)"

text \<open>\<open>_is_file_processed\<close>\<close>

definition is_file_processed :: "env \<Rightarrow> path \<Rightarrow> state \<Rightarrow> error + bool" where
  "is_file_processed e p s =
     (let metadata = load_index_metadata s
      in if fs s p = None then Inr False
         else
           (let file_key = abspath e p;
                current_hash = get_file_hash e p s
            in case metadata of
                 NoProcessedFiles \<Rightarrow> Inl KeyError
               | Ledger m \<Rightarrow>
                   (case processed_files m file_key of
                      Some en \<Rightarrow>
                        Inr ((case file_hash en of None \<Rightarrow> [] | Some h \<Rightarrow> h) = current_hash)
                    | None \<Rightarrow> Inr False)))"

text \<open>\<open>get_collection_stats\<close>\<close>

definition get_collection_stats :: "env \<Rightarrow> state \<Rightarrow> coll_stats" where
  "get_collection_stats e s =
     (if stats_fails e then StatsError else Entities (length (rows s)))"

text \<open>\<open>_mark_file_as_processed\<close>\<close>

definition mark_file_as_processed :: "env \<Rightarrow> path \<Rightarrow> nat \<Rightarrow> state \<Rightarrow> error + state" where
  "mark_file_as_processed e p n s =
     (let metadata = load_index_metadata s;
          file_key = abspath e p;
          h = get_file_hash e p s
      in case fs s p of
           None \<Rightarrow> Inl FileNotFoundError
         | Some f \<Rightarrow>
             (case metadata of
                NoProcessedFiles \<Rightarrow> Inl KeyError
              | Ledger m \<Rightarrow>
                  (let m1 = m\<lparr>processed_files := (processed_files m)(file_key \<mapsto>
                              \<lparr>file_hash = Some h, chunk_count = n,
                               processed_date = st_mtime f,
                               file_size = length (content f)\<rparr>)\<rparr>;
                       stats = get_collection_stats e s;
                       m2 = m1\<lparr>collection_stats := stats\<rparr>
                   in Inr (save_index_metadata e m2 s))))"

text \<open>\<open>list_processed_files\<close>: \<open>metadata.get("processed_files", {})\<close>.\<close>

definition list_processed_files :: "state \<Rightarrow> (path \<rightharpoonup> entry)" where
  "list_processed_files s =
     (case load_index_metadata s of
        Ledger m \<Rightarrow> processed_files m
      | NoProcessedFiles \<Rightarrow> Map.empty)"

section \<open>Indexer\<close>

definition zero_vector :: vector where
  "zero_vector = replicate 768 0"

text \<open>\<open>generate_embedding\<close> and \<open>generate_query_embedding\<close>: the zero vector on error.\<close>

definition generate_embedding :: "env \<Rightarrow> string \<Rightarrow> vector" where
  "generate_embedding e t = (case embed_content e t of Some v \<Rightarrow> v | None \<Rightarrow> zero_vector)"

definition generate_query_embedding :: "env \<Rightarrow> string \<Rightarrow> vector" where
  "generate_query_embedding e q = (case embed_query e q of Some v \<Rightarrow> v | None \<Rightarrow> zero_vector)"

text \<open>\<open>load_pdf\<close>: pages whose text is not blank, numbered from 1 in the PDF; the empty
  list when anything raises.\<close>

definition load_pdf :: "env \<Rightarrow> path \<Rightarrow> state \<Rightarrow> page_doc list" where
  "load_pdf e p s =
     (case fs s p of
        None \<Rightarrow> []
      | Some f \<Rightarrow>
          if \<not> readable f then []
          else
            (case extract_pages e (content f) of
               None \<Rightarrow> []
             | Some texts \<Rightarrow>
                 map (\<lambda>(i, t). \<lparr>doc_text = t, source = basename p, page_num = i + 1\<rparr>)
                   (filter (\<lambda>(i, t). strip t \<noteq> []) (enumerate 0 texts))))"

text \<open>The body of the outer loop of \<open>process_documents\<close>: the chunks of one page, with
  their positions, those of more than 50 characters kept.\<close>

definition page_chunks :: "page_doc \<Rightarrow> chunk_doc list option" where
  "page_chunks doc =
     (case chunk_text (doc_text doc) 1000 200 of
        None \<Rightarrow> None
      | Some chunks \<Rightarrow>
          Some (map (\<lambda>(i, c). \<lparr>doc_text = c, source = source doc, page_num = page_num doc,
                               chunk_id = i\<rparr>)
                  (filter (\<lambda>(i, c). length (strip c) > 50) (enumerate 0 chunks))))"

fun process_pages :: "page_doc list \<Rightarrow> chunk_doc list option" where
  "process_pages [] = Some []"
| "process_pages (d # ds) =
     (case page_chunks d of
        None \<Rightarrow> None
      | Some cs \<Rightarrow>
          (case process_pages ds of
             None \<Rightarrow> None
           | Some rest \<Rightarrow> Some (cs @ rest)))"

definition process_documents :: "env \<Rightarrow> path \<Rightarrow> state \<Rightarrow> chunk_doc list option" where
  "process_documents e p s = process_pages (load_pdf e p s)"

text \<open>The embedding loop of \<open>add_documents\<close>: one row per chunk, in order.\<close>

definition embed_rows :: "env \<Rightarrow> chunk_doc list \<Rightarrow> row list" where
  "embed_rows e docs =
     map (\<lambda>d. \<lparr>doc_text = doc_text d, source = source d, page_num = page_num d,
               chunk_id = chunk_id d, embedding = generate_embedding e (doc_text d)\<rparr>) docs"

text \<open>
  \<open>self.collection.is_loaded\<close>, read by \<open>add_documents\<close> for a file that is already
  recorded. The pymilvus \<open>Collection\<close> class has no attribute of that name and nothing in
  the repository defines one, so the read raises \<open>AttributeError\<close>.
\<close>

definition is_loaded :: "state \<Rightarrow> error + bool" where
  "is_loaded s = Inl AttributeError"

text \<open>
  \<open>add_documents\<close>. Every exception inside its \<open>try\<close> gives \<open>False\<close>. The result is
  \<open>None\<close> when the call does not return.
\<close>

definition add_documents :: "env \<Rightarrow> path \<Rightarrow> state \<Rightarrow> (bool \<times> state) option" where
  "add_documents e p s =
     (case is_file_processed e p s of
        Inl err \<Rightarrow> Some (False, s)
      | Inr True \<Rightarrow>
          (case get_collection_stats e s of
             Entities n \<Rightarrow>
               (case is_loaded s of
                  Inl err \<Rightarrow> Some (False, s)
                | Inr l \<Rightarrow>
                    if l then Some (True, s)
                    else if load_fails e then Some (False, s)
                    else Some (True, s\<lparr>loaded := True\<rparr>))
           | _ \<Rightarrow> Some (False, s))
      | Inr False \<Rightarrow>
          (case process_documents e p s of
             None \<Rightarrow> None
           | Some processed_docs \<Rightarrow>
               if processed_docs = [] then Some (False, s)
               else
                 (let s1 = s\<lparr>embed_log := embed_log s @ map doc_text processed_docs\<rparr>;
                      entities = embed_rows e processed_docs
                  in if insert_fails e then Some (False, s1)
                     else
                       (let s2 = s1\<lparr>rows := rows s1 @ entities\<rparr>
                        in if flush_fails e then Some (False, s2)
                           else if load_fails e then Some (False, s2)
                           else
                             (let s3 = s2\<lparr>loaded := True\<rparr>
                              in case mark_file_as_processed e p (length processed_docs) s3 of
                                   Inl err \<Rightarrow> Some (False, s3)
                                 | Inr s4 \<Rightarrow> Some (True, s4))))))"

text \<open>\<open>force_reindex\<close>: the ledger is read outside any \<open>try\<close>, so a ledger without
  \<open>processed_files\<close> raises (\<open>Inl\<close>).\<close>

definition force_reindex :: "env \<Rightarrow> path \<Rightarrow> state \<Rightarrow> error + (bool \<times> state) option" where
  "force_reindex e p s =
     (case load_index_metadata s of
        NoProcessedFiles \<Rightarrow> Inl KeyError
      | Ledger m \<Rightarrow>
          (let file_key = abspath e p;
               s1 = (if processed_files m file_key \<noteq> None
                     then save_index_metadata e
                            (m\<lparr>processed_files := (processed_files m)(file_key := None)\<rparr>) s
                     else s)
           in Inr (add_documents e p s1)))"

section \<open>Retriever\<close>

text \<open>\<open>search_similar_documents\<close>: the empty list when the search raises.\<close>

definition search_similar_documents ::
  "env \<Rightarrow> string \<Rightarrow> int \<Rightarrow> state \<Rightarrow> search_result list" where
  "search_similar_documents e query top_k s =
     (let query_embedding = generate_query_embedding e query
      in case store_search e (rows s) query_embedding top_k of
           None \<Rightarrow> []
         | Some results \<Rightarrow>
             map (\<lambda>r. \<lparr>doc_text = doc_text r, source = source r, page_num = page_num r,
                       chunk_id = chunk_id r, score = distance r\<rparr>) results)"

section \<open>A sample world\<close>

text \<open>
  A two-page PDF at an absolute path, a ledger that does not exist yet, an empty
  collection, and collaborators that all succeed. The digest stand-in is injective.
\<close>

definition demo_page1 :: string where
  "demo_page1 = ''Atrial fibrillation is the most common sustained arrhythmia in adults.''"

definition demo_page2 :: string where
  "demo_page2 = ''Beta blockers reduce mortality after myocardial infarction in most patients.''"

definition demo_path :: path where
  "demo_path = ''/data/heart.pdf''"

definition demo_vector :: vector where
  "demo_vector = replicate 768 1"

definition demo_env :: env where
  "demo_env =
     \<lparr>abspath = (\<lambda>p. p),
      md5 = (\<lambda>c. ''md5:'' @ c),
      extract_pages = (\<lambda>c. if c = ''%PDF two pages'' then Some [demo_page1, demo_page2]
                            else if c = ''%PDF scanned'' then Some []
                            else None),
      embed_content = (\<lambda>t. Some demo_vector),
      embed_query = (\<lambda>q. Some demo_vector),
      store_search = (\<lambda>rs v k. Some (map (\<lambda>r. \<lparr>doc_text = doc_text r, source = source r,
                                    page_num = page_num r, chunk_id = chunk_id r,
                                    distance = 0\<rparr>) (take (nat k) rs))),
      insert_fails = False,
      flush_fails = False,
      load_fails = False,
      stats_fails = False,
      ledger_writable = True\<rparr>"

definition demo_file :: file_node where
  "demo_file = \<lparr>content = ''%PDF two pages'', readable = True, st_mtime = 1700000000\<rparr>"

definition demo_state :: state where
  "demo_state =
     \<lparr>fs = [demo_path \<mapsto> demo_file],
      ledger_file = Missing,
      rows = [],
      loaded = False,
      embed_log = []\<rparr>"

text \<open>The chunks of the sample PDF, the rows they become, and the world after the
  PDF has been indexed once.\<close>

definition demo_chunks :: "chunk_doc list" where
  "demo_chunks =
     [\<lparr>doc_text = demo_page1, source = ''heart.pdf'', page_num = 1, chunk_id = 0\<rparr>,
      \<lparr>doc_text = demo_page2, source = ''heart.pdf'', page_num = 2, chunk_id = 0\<rparr>]"

definition demo_rows :: "row list" where
  "demo_rows =
     [\<lparr>doc_text = demo_page1, source = ''heart.pdf'', page_num = 1, chunk_id = 0,
       embedding = demo_vector\<rparr>,
      \<lparr>doc_text = demo_page2, source = ''heart.pdf'', page_num = 2, chunk_id = 0,
       embedding = demo_vector\<rparr>]"

definition demo_entry :: entry where
  "demo_entry =
     \<lparr>file_hash = Some ''md5:%PDF two pages'', chunk_count = 2,
      processed_date = 1700000000, file_size = 14\<rparr>"

definition demo_indexed_state :: state where
  "demo_indexed_state =
     \<lparr>fs = [demo_path \<mapsto> demo_file],
      ledger_file = Stored (Ledger \<lparr>processed_files = [demo_path \<mapsto> demo_entry],
                                   collection_stats = Entities 2\<rparr>),
      rows = demo_rows,
      loaded = True,
      embed_log = [demo_page1, demo_page2]\<rparr>"

text \<open>The same world after the PDF has been deleted from disk: the ledger still holds
  its entry.\<close>

definition demo_orphan_state :: state where
  "demo_orphan_state = demo_indexed_state\<lparr>fs := Map.empty\<rparr>"

text \<open>The embedding call fails for the chunk of the second page only.\<close>

definition demo_failing_env :: env where
  "demo_failing_env =
     demo_env\<lparr>embed_content := (\<lambda>t. if t = demo_page2 then None else Some demo_vector)\<rparr>"

text \<open>The indexed world when the second chunk was stored with the zero vector.\<close>

definition demo_degraded_state :: state where
  "demo_degraded_state =
     demo_indexed_state\<lparr>rows :=
       [\<lparr>doc_text = demo_page1, source = ''heart.pdf'', page_num = 1, chunk_id = 0,
         embedding = demo_vector\<rparr>,
        \<lparr>doc_text = demo_page2, source = ''heart.pdf'', page_num = 2, chunk_id = 0,
         embedding = zero_vector\<rparr>]\<rparr>"

text \<open>The indexed world after the ledger file has been damaged.\<close>

definition demo_corrupt_state :: state where
  "demo_corrupt_state = demo_indexed_state\<lparr>ledger_file := Unparseable\<rparr>"

text \<open>\<open>collection.insert\<close> raises.\<close>

definition demo_insert_failing_env :: env where
  "demo_insert_failing_env = demo_env\<lparr>insert_fails := True\<rparr>"

text \<open>The world after a forced re-index of the indexed PDF: its rows are stored
  twice, and the ledger entry is the one it had.\<close>

definition demo_reindexed_state :: state where
  "demo_reindexed_state =
     demo_indexed_state
       \<lparr>ledger_file := Stored (Ledger \<lparr>processed_files = [demo_path \<mapsto> demo_entry],
                                       collection_stats = Entities 4\<rparr>),
        rows := demo_rows @ demo_rows,
        embed_log := [demo_page1, demo_page2, demo_page1, demo_page2]\<rparr>"

section \<open>Whitespace lemmas\<close>

lemma collapse_ws_Nil_iff: "collapse_ws xs = [] \<longleftrightarrow> xs = []"
  by (cases xs) auto

lemma hd_collapse_ws: "xs \<noteq> [] \<Longrightarrow> \<not> isspace (hd xs) \<Longrightarrow> hd (collapse_ws xs) = hd xs"
  by (cases xs) auto

lemma isspace_blank: "isspace CHR '' ''"
  by (simp add: isspace_def)

lemma single_spaced_collapse_ws: "single_spaced (collapse_ws xs)"
proof (induction xs rule: collapse_ws.induct)
  case 1
  show ?case by (simp add: single_spaced_def)
next
  case (2 c cs)
  show ?case
  proof (cases "isspace c")
    case True
    let ?r = "dropWhile isspace cs"
    have ih: "single_spaced (collapse_ws ?r)" using 2(1) True by simp
    have "collapse_ws ?r = [] \<or> \<not> isspace (hd (collapse_ws ?r))"
    proof (cases "?r = []")
      case True
      then have "collapse_ws ?r = []" by (simp only: collapse_ws.simps)
      then show ?thesis ..
    next
      case False
      then have "\<not> isspace (hd ?r)" by (rule hd_dropWhile)
      with False show ?thesis by (simp add: hd_collapse_ws)
    qed
    with ih True show ?thesis
      by (auto simp: single_spaced_def successively_Cons)
  next
    case False
    with 2(2) show ?thesis
      by (auto simp: single_spaced_def successively_Cons)
  qed
qed

lemma single_spaced_drop: "single_spaced xs \<Longrightarrow> single_spaced (drop n xs)"
proof -
  assume a: "single_spaced xs"
  have "xs = take n xs @ drop n xs" by simp
  then have "single_spaced (take n xs @ drop n xs)" using a by simp
  then show ?thesis unfolding single_spaced_def successively_append_iff by blast
qed

lemma single_spaced_take: "single_spaced xs \<Longrightarrow> single_spaced (take n xs)"
proof -
  assume a: "single_spaced xs"
  have "xs = take n xs @ drop n xs" by simp
  then have "single_spaced (take n xs @ drop n xs)" using a by simp
  then show ?thesis unfolding single_spaced_def successively_append_iff by blast
qed

lemma single_spaced_rev: "single_spaced (rev xs) = single_spaced xs"
proof -
  have "successively (\<lambda>x y. \<not> (isspace y \<and> isspace x)) xs =
        successively (\<lambda>a b. \<not> (isspace a \<and> isspace b)) xs"
    by (rule successively_cong) auto
  then show ?thesis unfolding single_spaced_def successively_rev .
qed

lemma single_spaced_dropWhile: "single_spaced xs \<Longrightarrow> single_spaced (dropWhile P xs)"
  by (simp add: dropWhile_eq_drop single_spaced_drop)

lemma single_spaced_strip: "single_spaced xs \<Longrightarrow> single_spaced (strip xs)"
  by (simp add: strip_def single_spaced_rev single_spaced_dropWhile)

lemma single_spaced_clean_text: "single_spaced (clean_text t)"
  by (simp add: clean_text_def single_spaced_strip single_spaced_collapse_ws)

lemma length_dropWhile_single: "single_spaced xs \<Longrightarrow> length xs \<le> Suc (length (dropWhile isspace xs))"
proof (cases xs)
  case Nil
  then show ?thesis by simp
next
  case (Cons a ys)
  assume s: "single_spaced xs"
  show ?thesis
  proof (cases ys)
    case Nil
    with Cons show ?thesis by simp
  next
    case (Cons b zs)
    with s \<open>xs = a # ys\<close> show ?thesis by (auto simp: single_spaced_def)
  qed
qed

lemma length_strip_le: "length (strip xs) \<le> length xs"
proof -
  have "length (strip xs) \<le> length (dropWhile isspace xs)"
    unfolding strip_def using length_dropWhile_le [of isspace "rev (dropWhile isspace xs)"] by simp
  also have "\<dots> \<le> length xs" by (rule length_dropWhile_le)
  finally show ?thesis .
qed

lemma length_strip_ge2: "single_spaced xs \<Longrightarrow> length xs \<le> length (strip xs) + 2"
proof -
  assume s: "single_spaced xs"
  let ?ys = "dropWhile isspace xs"
  have 1: "length xs \<le> Suc (length ?ys)" using s by (rule length_dropWhile_single)
  have "single_spaced (rev ?ys)" using s by (simp add: single_spaced_rev single_spaced_dropWhile)
  then have "length (rev ?ys) \<le> Suc (length (dropWhile isspace (rev ?ys)))"
    by (rule length_dropWhile_single)
  then have 2: "length ?ys \<le> Suc (length (strip xs))" by (simp add: strip_def)
  from 1 2 show ?thesis by simp
qed

lemma strip_last_nonspace:
  assumes "xs \<noteq> []" "\<not> isspace (last xs)"
  shows "strip xs = dropWhile isspace xs"
proof -
  let ?ys = "dropWhile isspace xs"
  have ne: "?ys \<noteq> []" using assms by (metis dropWhile_eq_Nil_conv last_in_set)
  have "last ?ys = last xs" using assms(1) ne
    by (metis append_Nil2 last_appendR takeWhile_dropWhile_id)
  then have "\<not> isspace (hd (rev ?ys))" using assms(2) ne by (simp add: hd_rev)
  then have "dropWhile isspace (rev ?ys) = rev ?ys" using ne by (cases "rev ?ys") auto
  then show ?thesis by (simp add: strip_def)
qed

lemma length_strip_ge1:
  assumes "single_spaced xs" "xs \<noteq> []" "\<not> isspace (last xs)"
  shows "length xs \<le> length (strip xs) + 1"
  using length_dropWhile_single [OF assms(1)] strip_last_nonspace [OF assms(2,3)] by simp

lemma strip_nonempty:
  assumes "c \<in> set xs" "\<not> isspace c"
  shows "strip xs \<noteq> []"
proof -
  let ?ys = "dropWhile isspace xs"
  have "c \<in> set ?ys" using assms
    by (metis Un_iff set_append set_takeWhileD takeWhile_dropWhile_id)
  then have "c \<in> set (rev ?ys)" by simp
  then have "dropWhile isspace (rev ?ys) \<noteq> []" using assms(2)
    by (metis dropWhile_eq_Nil_conv)
  then show ?thesis by (simp add: strip_def)
qed

lemma dropWhile_id: "xs = [] \<or> \<not> P (hd xs) \<Longrightarrow> dropWhile P xs = xs"
  by (cases xs) auto

lemma strip_idem: "strip (strip xs) = strip xs"
proof -
  let ?ws = "dropWhile isspace xs"
  let ?zs = "dropWhile isspace (rev ?ws)"
  have ys: "strip xs = rev ?zs" by (simp add: strip_def)
  have zs: "?zs = [] \<or> \<not> isspace (hd ?zs)" using hd_dropWhile [of isspace "rev ?ws"] by blast
  have ws: "?ws = [] \<or> \<not> isspace (hd ?ws)" using hd_dropWhile [of isspace xs] by blast
  have "rev ?zs = [] \<or> \<not> isspace (hd (rev ?zs))"
  proof (cases "?zs = []")
    case True
    then show ?thesis by simp
  next
    case False
    have "rev ?ws = takeWhile isspace (rev ?ws) @ ?zs" by simp
    then have "last (rev ?ws) = last ?zs" using False by (metis last_appendR)
    moreover have "?ws \<noteq> []"
    proof
      assume "?ws = []"
      then have "?zs = []" by (simp only: rev.simps dropWhile.simps)
      with False show False ..
    qed
    ultimately have "last ?zs = hd ?ws" by (simp only: last_rev)
    moreover have "\<not> isspace (hd ?ws)" using ws \<open>?ws \<noteq> []\<close> by blast
    ultimately have "\<not> isspace (hd (rev ?zs))" by (metis hd_rev)
    then show ?thesis ..
  qed
  then have "dropWhile isspace (rev ?zs) = rev ?zs" by (rule dropWhile_id)
  moreover have "dropWhile isspace ?zs = ?zs" using zs by (rule dropWhile_id)
  ultimately show ?thesis unfolding ys by (simp add: strip_def)
qed

section \<open>Slices and \<open>rfind\<close>\<close>

lemma clip_nonneg: "0 \<le> i \<Longrightarrow> clip n i = nat (min i n)"
  by (simp add: clip_def)

lemma slice_nonneg:
  assumes "0 \<le> a" "a \<le> b" "b \<le> int (length xs)"
  shows "slice xs a b = take (nat (b - a)) (drop (nat a) xs)"
proof -
  have "clip (int (length xs)) a = nat a" "clip (int (length xs)) b = nat b"
    using assms by (simp_all add: clip_nonneg min_def)
  moreover have "nat b - nat a = nat (b - a)" using assms by linarith
  ultimately show ?thesis by (simp add: slice_def Let_def)
qed

lemma length_slice_le:
  assumes "0 \<le> a" "a \<le> b"
  shows "int (length (slice xs a b)) \<le> b - a"
proof -
  let ?A = "clip (int (length xs)) a" and ?B = "clip (int (length xs)) b"
  have "?A = nat (min a (int (length xs)))" "?B = nat (min b (int (length xs)))"
    using assms by (simp_all add: clip_nonneg)
  then have "int (?B - ?A) \<le> b - a" using assms by linarith
  moreover have "length (slice xs a b) \<le> ?B - ?A" by (simp add: slice_def Let_def)
  ultimately show ?thesis by linarith
qed

lemma single_spaced_slice: "single_spaced xs \<Longrightarrow> single_spaced (slice xs a b)"
  by (simp add: slice_def Let_def single_spaced_take single_spaced_drop)

lemma rfind_range:
  assumes "rfind s c a b \<noteq> - 1"
  shows "int (clip (int (length s)) a) \<le> rfind s c a b \<and>
         rfind s c a b < int (clip (int (length s)) b) \<and>
         s ! nat (rfind s c a b) = c"
proof -
  let ?n = "int (length s)"
  let ?xs = "filter (\<lambda>i. s ! i = c) (rev [clip ?n a ..< clip ?n b])"
  from assms obtain i rest where eq: "?xs = i # rest"
    by (cases ?xs) (auto simp: rfind_def Let_def)
  then have r: "rfind s c a b = int i" by (simp add: rfind_def Let_def)
  have "i \<in> set ?xs" using eq by simp
  then have "clip ?n a \<le> i" "i < clip ?n b" "s ! i = c" by auto
  with r show ?thesis by simp
qed

lemma rfind_found:
  assumes "0 \<le> start" "0 \<le> h" "start + h < rfind s c start end0"
    and "0 \<le> end0" "end0 \<le> int (length s)"
  shows "start \<le> rfind s c start end0" "rfind s c start end0 < end0"
        "s ! nat (rfind s c start end0) = c"
proof -
  let ?r = "rfind s c start end0"
  have ne: "?r \<noteq> - 1" using assms by linarith
  have e0: "0 \<le> end0" by fact
  have "clip (int (length s)) end0 = nat end0" using e0 assms(5) by (simp add: clip_nonneg min_def)
  with rfind_range [OF ne] e0 show "?r < end0" "s ! nat ?r = c" by auto
  show "start \<le> ?r" using assms by linarith
qed

lemma upper_bound_chunk:
  assumes "0 \<le> start" "start \<le> e" "e \<le> start + cs"
  shows "int (length (strip (slice t start e))) \<le> cs"
proof -
  have "int (length (strip (slice t start e))) \<le> int (length (slice t start e))"
    using length_strip_le by simp
  also have "\<dots> \<le> e - start" using assms by (intro length_slice_le) auto
  finally show ?thesis using assms by linarith
qed

lemma sentence_cut_len:
  assumes ss: "single_spaced t" and "0 \<le> start" "0 \<le> h"
    and "start + h < rfind t c start end0" "0 \<le> end0" "end0 \<le> int (length t)"
  shows "h \<le> int (length (strip (slice t start (rfind t c start end0 + 1))))"
proof -
  let ?r = "rfind t c start end0"
  note f = rfind_found [OF assms(2-6)]
  have sl: "slice t start (?r + 1) = take (nat (?r + 1 - start)) (drop (nat start) t)"
    using f assms by (intro slice_nonneg) auto
  have "int (length (slice t start (?r + 1))) = ?r + 1 - start"
    unfolding sl using f assms by simp
  moreover have "length (slice t start (?r + 1)) \<le> length (strip (slice t start (?r + 1))) + 2"
    using ss by (intro length_strip_ge2 single_spaced_slice)
  ultimately show ?thesis using assms by linarith
qed

lemma word_cut_len:
  assumes ss: "single_spaced t" and "0 \<le> start" "0 \<le> h"
    and "start + h < rfind t CHR '' '' start end0" "0 \<le> end0" "end0 \<le> int (length t)"
  shows "h \<le> int (length (strip (slice t start (rfind t CHR '' '' start end0))))"
proof -
  let ?r = "rfind t CHR '' '' start end0"
  note f = rfind_found [OF assms(2-6)]
  have rpos: "start < ?r" using assms by linarith
  have sl: "slice t start ?r = take (nat (?r - start)) (drop (nat start) t)"
    using f assms by (intro slice_nonneg) auto
  have len: "int (length (slice t start ?r)) = ?r - start"
    unfolding sl using f assms by simp
  then have ne: "slice t start ?r \<noteq> []" using rpos by auto
  have "last (slice t start ?r) = (slice t start ?r) ! (length (slice t start ?r) - 1)"
    using ne by (rule last_conv_nth)
  also have "length (slice t start ?r) - 1 = nat (?r - start) - 1" using len by simp
  also have "(slice t start ?r) ! (nat (?r - start) - 1) = t ! (nat start + (nat (?r - start) - 1))"
    unfolding sl using f assms rpos by simp
  also have "nat start + (nat (?r - start) - 1) = nat ?r - 1" using rpos assms by linarith
  finally have la: "last (slice t start ?r) = t ! (nat ?r - 1)" .
  have "Suc (nat ?r - 1) < length t" using f assms rpos by linarith
  then have "\<not> (isspace (t ! (nat ?r - 1)) \<and> isspace (t ! Suc (nat ?r - 1)))"
    using ss unfolding single_spaced_def successively_conv_nth by blast
  moreover have "Suc (nat ?r - 1) = nat ?r" using rpos assms by linarith
  ultimately have "\<not> isspace (last (slice t start ?r))"
    using f(3) la by (simp add: isspace_blank)
  then have "length (slice t start ?r) \<le> length (strip (slice t start ?r)) + 1"
    using ss ne by (intro length_strip_ge1 single_spaced_slice)
  with len show ?thesis using assms by linarith
qed

lemma hard_cut_len:
  assumes ss: "single_spaced t" and "0 \<le> start" "0 < cs" "start + cs \<le> int (length t)"
  shows "cs div 2 \<le> int (length (strip (slice t start (start + cs))))"
proof -
  let ?sl = "slice t start (start + cs)"
  have sl: "?sl = take (nat cs) (drop (nat start) t)"
    using assms slice_nonneg [of start "start + cs" t] by simp
  have len: "int (length ?sl) = cs" unfolding sl using assms by simp
  have ge2: "length ?sl \<le> length (strip ?sl) + 2"
    using ss by (intro length_strip_ge2 single_spaced_slice)
  show ?thesis
  proof (cases "cs = 2")
    case False
    with len ge2 assms show ?thesis by linarith
  next
    case True
    have s2: "single_spaced ?sl" using ss by (rule single_spaced_slice)
    from len True obtain a b where ab: "?sl = [a, b]"
      by (cases ?sl; cases "tl ?sl") auto
    with s2 have "\<not> isspace a \<or> \<not> isspace b" by (auto simp: single_spaced_def)
    then have "strip ?sl \<noteq> []" using ab strip_nonempty [of a ?sl] strip_nonempty [of b ?sl] by auto
    then have "1 \<le> int (length (strip ?sl))" by (cases "strip ?sl") auto
    with True show ?thesis by simp
  qed
qed

section \<open>The chunking loop\<close>

lemma chunk_loop_exit:
  "\<not> start < int (length t) \<Longrightarrow> chunk_loop t cs ov start acc = Some acc"
  by (subst chunk_loop.simps) simp

lemma chunk_loop_bounds:
  assumes ss: "single_spaced t" and cs: "0 < cs" and ov: "ov \<le> cs div 2"
  shows "0 \<le> start \<Longrightarrow>
         \<exists>more. chunk_loop t cs ov start acc = Some (acc @ more) \<and>
                (\<forall>c \<in> set more. int (length c) \<le> cs) \<and>
                (\<forall>c \<in> set (butlast more). cs div 2 \<le> int (length c)) \<and>
                (\<forall>c \<in> set more. strip c = c)"
proof (induction "nat (int (length t) - start)" arbitrary: start acc rule: less_induct)
  case less
  let ?n = "int (length t)"
  show ?case
  proof (cases "start < ?n")
    case False
    then have "chunk_loop t cs ov start acc = Some (acc @ [])"
      by (simp add: chunk_loop_exit)
    then show ?thesis by fastforce
  next
    case True
    define end0 where "end0 = start + cs"
    define se where "se = rfind t CHR ''.'' start end0"
    define we where "we = rfind t CHR '' '' start end0"
    define end1 where "end1 =
      (if end0 < ?n then
         (if se > start + cs div 2 then se + 1
          else if we > start + cs div 2 then we else end0)
       else end0)"
    define c where "c = strip (slice t start end1)"
    define start' where "start' = (if end1 < ?n then end1 - ov else end1)"
    have step: "chunk_loop t cs ov start acc = chunk_loop t cs ov start' (acc @ [c])"
      by (subst chunk_loop.simps)
         (simp add: True end0_def se_def we_def end1_def c_def start'_def Let_def)
    have h0: "0 \<le> cs div 2" using cs by simp
    have e0: "0 \<le> end0" using less.prems cs by (simp add: end0_def)
    have se_lt: "start + cs div 2 < se \<Longrightarrow> end0 < ?n \<Longrightarrow> se < end0"
      unfolding se_def using rfind_found(2) [of start "cs div 2" t "CHR ''.''" end0] less.prems h0 e0
      by simp
    have we_lt: "start + cs div 2 < we \<Longrightarrow> end0 < ?n \<Longrightarrow> we < end0"
      unfolding we_def using rfind_found(2) [of start "cs div 2" t "CHR '' ''" end0] less.prems h0 e0
      by simp
    have lo: "start + cs div 2 < end1" and hi: "end1 \<le> end0"
      using se_lt we_lt cs by (auto simp: end1_def end0_def)
    have upper: "int (length c) \<le> cs"
      unfolding c_def using less.prems lo hi h0 by (intro upper_bound_chunk) (auto simp: end0_def)
    have stripped: "strip c = c" by (simp add: c_def strip_idem)
    show ?thesis
    proof (cases "end1 < ?n")
      case False
      then have "start' = end1" by (simp add: start'_def)
      with False have "chunk_loop t cs ov start' (acc @ [c]) = Some (acc @ [c])"
        by (simp add: chunk_loop_exit)
      with step upper stripped show ?thesis by fastforce
    next
      case e1: True
      then have e0n: "end0 < ?n" by (auto simp: end1_def split: if_splits)
      have lower: "cs div 2 \<le> int (length c)"
      proof (cases "start + cs div 2 < se")
        case True
        then have "end1 = se + 1" using e0n by (simp add: end1_def)
        then show ?thesis unfolding c_def se_def
          using sentence_cut_len [OF ss less.prems h0, of "CHR ''.''" end0] True e0 e0n
          by (simp add: se_def)
      next
        case nse: False
        show ?thesis
        proof (cases "start + cs div 2 < we")
          case True
          then have "end1 = we" using e0n nse by (simp add: end1_def)
          then show ?thesis unfolding c_def we_def
            using word_cut_len [OF ss less.prems h0, of end0] True e0 e0n
            by (simp add: we_def)
        next
          case False
          then have "end1 = start + cs" using e0n nse by (simp add: end1_def end0_def)
          then show ?thesis unfolding c_def
            using hard_cut_len [OF ss less.prems cs] e0n by (simp add: end0_def)
        qed
      qed
      have st: "start' = end1 - ov" using e1 by (simp add: start'_def)
      have prog: "start < start'" using st lo ov by linarith
      then have "0 \<le> start'" using less.prems by simp
      moreover have "nat (?n - start') < nat (?n - start)" using prog True by linarith
      ultimately obtain more where
        m: "chunk_loop t cs ov start' (acc @ [c]) = Some ((acc @ [c]) @ more)"
           "\<forall>x \<in> set more. int (length x) \<le> cs"
           "\<forall>x \<in> set (butlast more). cs div 2 \<le> int (length x)"
           "\<forall>x \<in> set more. strip x = x"
        using less.hyps [of start' "acc @ [c]"] by blast
      have "chunk_loop t cs ov start acc = Some (acc @ (c # more))"
        using step m(1) by simp
      moreover have "\<forall>x \<in> set (c # more). int (length x) \<le> cs"
        using upper m(2) by simp
      moreover have "\<forall>x \<in> set (butlast (c # more)). cs div 2 \<le> int (length x)"
        using lower m(3) by simp
      moreover have "\<forall>x \<in> set (c # more). strip x = x"
        using stripped m(4) by simp
      ultimately show ?thesis by blast
    qed
  qed
qed

section \<open>Pages and chunk positions\<close>

lemma chunk_text_default:
  "\<exists>chunks. chunk_text t 1000 200 = Some chunks \<and>
     (\<forall>c \<in> set (butlast chunks). 50 < length (strip c))"
proof (cases "int (length (clean_text t)) \<le> 1000")
  case True
  then show ?thesis by (simp add: chunk_text_def Let_def)
next
  case False
  have "single_spaced (clean_text t)" by (rule single_spaced_clean_text)
  from chunk_loop_bounds [OF this, of 1000 200 0 "[]"]
  obtain more where m: "chunk_loop (clean_text t) 1000 200 0 [] = Some more"
    "\<forall>c \<in> set (butlast more). 500 \<le> int (length c)" "\<forall>c \<in> set more. strip c = c"
    by auto
  have "\<forall>c \<in> set (butlast more). 50 < length (strip c)"
  proof
    fix c assume c: "c \<in> set (butlast more)"
    then have "c \<in> set more" by (rule in_set_butlastD)
    then have "strip c = c" using m(3) by blast
    moreover have "500 \<le> int (length c)" using m(2) c by blast
    ultimately show "50 < length (strip c)" by simp
  qed
  with m(1) False show ?thesis by (simp add: chunk_text_def Let_def)
qed

lemma filter_enumerate_all:
  "\<forall>x \<in> set xs. P x \<Longrightarrow> filter (\<lambda>(i, c). P c) (enumerate n xs) = enumerate n xs"
  by (induction xs arbitrary: n) auto

lemma enumerate_map_upt: "enumerate 0 xs = map (\<lambda>i. (i, xs ! i)) [0..<length xs]"
  by (rule nth_equalityI) (simp_all add: nth_enumerate_eq)

lemma filter_enumerate_prefix:
  assumes "\<forall>x \<in> set (butlast xs). P x"
  shows "\<exists>k. k \<le> length xs \<and> length xs \<le> Suc k \<and>
           filter (\<lambda>(i, c). P c) (enumerate 0 xs) = map (\<lambda>i. (i, xs ! i)) [0..<k]"
proof (cases "xs = []")
  case True
  then show ?thesis by simp
next
  case False
  then have xs: "xs = butlast xs @ [last xs]" by simp
  let ?b = "butlast xs"
  have en: "enumerate 0 xs = enumerate 0 ?b @ [(length ?b, last xs)]"
    by (subst xs) (simp add: enumerate_append_eq)
  have fb: "filter (\<lambda>(i, c). P c) (enumerate 0 ?b) = enumerate 0 ?b"
    using assms by (rule filter_enumerate_all)
  have nth_b: "map (\<lambda>i. (i, xs ! i)) [0..<length ?b] = enumerate 0 ?b"
    by (rule nth_equalityI) (simp_all add: nth_enumerate_eq nth_butlast)
  show ?thesis
  proof (cases "P (last xs)")
    case True
    then have "filter (\<lambda>(i, c). P c) (enumerate 0 xs) = enumerate 0 xs"
      using fb en by simp
    then show ?thesis using enumerate_map_upt [of xs] by (intro exI [of _ "length xs"]) simp
  next
    case False
    then have "filter (\<lambda>(i, c). P c) (enumerate 0 xs) = enumerate 0 ?b"
      using fb en by simp
    then show ?thesis using nth_b \<open>xs \<noteq> []\<close> by (intro exI [of _ "length ?b"]) simp
  qed
qed

lemma page_chunks_prefix:
  "\<exists>chunks k. chunk_text (doc_text d) 1000 200 = Some chunks \<and>
      k \<le> length chunks \<and> length chunks \<le> Suc k \<and>
      page_chunks d =
        Some (map (\<lambda>i. \<lparr>doc_text = chunks ! i, source = source d, page_num = page_num d,
                         chunk_id = i\<rparr>) [0..<k])"
proof -
  obtain chunks where c: "chunk_text (doc_text d) 1000 200 = Some chunks"
    "\<forall>c \<in> set (butlast chunks). 50 < length (strip c)"
    using chunk_text_default [of "doc_text d"] by blast
  from filter_enumerate_prefix [of chunks "\<lambda>c. 50 < length (strip c)", OF c(2)]
  obtain k where k: "k \<le> length chunks" "length chunks \<le> Suc k"
    "filter (\<lambda>(i, c). 50 < length (strip c)) (enumerate 0 chunks) =
       map (\<lambda>i. (i, chunks ! i)) [0..<k]" by blast
  have "page_chunks d =
        Some (map (\<lambda>i. \<lparr>doc_text = chunks ! i, source = source d, page_num = page_num d,
                         chunk_id = i\<rparr>) [0..<k])"
    by (simp add: page_chunks_def c(1) k(3) comp_def)
  with c(1) k(1,2) show ?thesis by blast
qed

lemma process_pages_total:
  "process_pages ds =
     Some (concat (map (\<lambda>d. case page_chunks d of None \<Rightarrow> [] | Some cs \<Rightarrow> cs) ds))"
proof (induction ds)
  case Nil
  show ?case by simp
next
  case (Cons d ds)
  obtain cs where "page_chunks d = Some cs" using page_chunks_prefix [of d] by blast
  with Cons show ?case by simp
qed

section \<open>Chunker properties\<close>

text \<open>
  Claim C6. When the whitespace-normalised, trimmed text is no longer than
  \<open>chunk_size\<close>, \<open>chunk_text\<close> returns exactly the one-element list holding that
  normalised text, whatever the overlap.
\<close>

theorem chunk_text_short:
  "int (length (clean_text text0)) \<le> chunk_size \<Longrightarrow>
     chunk_text text0 chunk_size overlap = Some [clean_text text0]"
  by (simp add: chunk_text_def Let_def)

lemma clean_text_heart: "clean_text ''  Heart   rate '' = ''Heart rate''"
  by code_simp

theorem chunk_text_short_witness:
  "int (length (clean_text ''  Heart   rate '')) \<le> 1000 \<and>
   chunk_text ''  Heart   rate '' 1000 200 = Some [''Heart rate'']"
  using chunk_text_short [of "''  Heart   rate ''" 1000 200]
  by (simp add: clean_text_heart)

text \<open>
  Claim C5, as stated, at \<open>chunk_size = 10\<close> and \<open>overlap = 8\<close>: the text has 11
  characters, the first cut is after the full stop at index 6, so the next start is
  \<open>7 - 8 = -1\<close>; the slice \<open>text[-1:9]\<close> is empty, and the empty chunk is followed by
  one more chunk. A chunk that is not the last has length 0, below \<open>10 div 2\<close>.
\<close>

theorem chunk_text_bounds_counterexample:
  "10 < int (length (clean_text ''abcdef.hijk'')) \<and>
   chunk_text ''abcdef.hijk'' 10 8 = Some [''abcdef.'', [], ''bcdef.hijk''] \<and>
   int (length ([''abcdef.'', [], ''bcdef.hijk''] ! 1)) < 10 div 2"
  by code_simp

text \<open>
  Claim C5, amended. For a positive \<open>chunk_size\<close> and an overlap of at most
  \<open>chunk_size div 2\<close> (the defaults 1000 and 200 are such), and a text whose
  normalised length exceeds \<open>chunk_size\<close>: \<open>chunk_text\<close> returns, every chunk has at
  most \<open>chunk_size\<close> characters, and every chunk except possibly the last has at least
  \<open>chunk_size div 2\<close> characters (integer division, as in the code).
\<close>

theorem chunk_text_bounds:
  assumes "0 < chunk_size" and "overlap \<le> chunk_size div 2"
    and "chunk_size < int (length (clean_text text0))"
  shows "\<exists>chunks. chunk_text text0 chunk_size overlap = Some chunks \<and>
           (\<forall>c \<in> set chunks. int (length c) \<le> chunk_size) \<and>
           (\<forall>c \<in> set (butlast chunks). chunk_size div 2 \<le> int (length c))"
proof -
  have "single_spaced (clean_text text0)" by (rule single_spaced_clean_text)
  from chunk_loop_bounds [OF this assms(1,2), of 0 "[]"]
  show ?thesis using assms(3) by (auto simp: chunk_text_def Let_def)
qed

lemma chunk_text_sinus:
  "chunk_text ''Sinus rhythm. Rate is normal, no murmur heard.'' 16 4 =
     Some [''Sinus rhythm.'', ''thm. Rate is'', ''e is normal, no'', '', no murmur'',
           ''rmur heard.'']"
  by code_simp

lemma clean_text_sinus:
  "clean_text ''Sinus rhythm. Rate is normal, no murmur heard.'' =
     ''Sinus rhythm. Rate is normal, no murmur heard.''"
  by code_simp

theorem chunk_text_bounds_witness:
  "(0::int) < 16 \<and> (4::int) \<le> 16 div 2 \<and>
   16 < int (length (clean_text ''Sinus rhythm. Rate is normal, no murmur heard.'')) \<and>
   (\<exists>chunks. chunk_text ''Sinus rhythm. Rate is normal, no murmur heard.'' 16 4 = Some chunks \<and>
      chunks = [''Sinus rhythm.'', ''thm. Rate is'', ''e is normal, no'', '', no murmur'',
                ''rmur heard.''] \<and>
      (\<forall>c \<in> set chunks. int (length c) \<le> 16) \<and>
      (\<forall>c \<in> set (butlast chunks). 16 div 2 \<le> int (length c)))"
  using chunk_text_bounds [of 16 4 "''Sinus rhythm. Rate is normal, no murmur heard.''"]
  by (simp add: clean_text_sinus chunk_text_sinus)

section \<open>Ledger properties\<close>

text \<open>
  Claim C8. For a path that does not exist on disk, \<open>_is_file_processed\<close> returns false
  whatever the ledger holds, also when it still has an entry for that path: the existence
  test comes before the ledger lookup and the hash comparison.
\<close>

theorem missing_file_not_processed:
  "fs s p = None \<Longrightarrow> is_file_processed e p s = Inr False"
  by (simp add: is_file_processed_def Let_def)

theorem missing_file_not_processed_witness:
  "fs demo_orphan_state demo_path = None \<and>
   list_processed_files demo_orphan_state (abspath demo_env demo_path) = Some demo_entry \<and>
   is_file_processed demo_env demo_path demo_orphan_state = Inr False"
  using missing_file_not_processed [of demo_orphan_state demo_path demo_env]
  by (simp add: demo_orphan_state_def demo_indexed_state_def demo_env_def
      list_processed_files_def load_index_metadata_def)

section \<open>Retriever properties\<close>

text \<open>
  Claim C10. When generating the query embedding fails, the search is still run, with
  the all-zero vector, and its hits are formatted and returned as for any other query:
  the result is the one a successful embedding equal to the zero vector would give.
\<close>

theorem query_embedding_failure_searches_zero:
  "embed_query e q = None \<Longrightarrow>
     search_similar_documents e q k s =
       (case store_search e (rows s) zero_vector k of
          None \<Rightarrow> []
        | Some results \<Rightarrow>
            map (\<lambda>r. \<lparr>doc_text = doc_text r, source = source r, page_num = page_num r,
                      chunk_id = chunk_id r, score = distance r\<rparr>) results) \<and>
     search_similar_documents e q k s =
       search_similar_documents (e\<lparr>embed_query := (\<lambda>x. Some zero_vector)\<rparr>) q k s"
  by (simp add: search_similar_documents_def generate_query_embedding_def Let_def)

theorem query_embedding_failure_searches_zero_witness:
  "embed_query (demo_env\<lparr>embed_query := (\<lambda>x. None)\<rparr>) ''chest pain'' = None \<and>
   search_similar_documents (demo_env\<lparr>embed_query := (\<lambda>x. None)\<rparr>) ''chest pain'' 1
       demo_indexed_state =
     [\<lparr>doc_text = demo_page1, source = ''heart.pdf'', page_num = 1, chunk_id = 0,
       score = 0\<rparr>]"
  using query_embedding_failure_searches_zero
          [of "demo_env\<lparr>embed_query := (\<lambda>x. None)\<rparr>" "''chest pain''" 1 demo_indexed_state]
  by (simp add: demo_env_def demo_indexed_state_def demo_rows_def)

section \<open>The indexing run\<close>

lemma process_documents_returns: "\<exists>docs. process_documents e p s = Some docs"
  by (simp add: process_documents_def process_pages_total)

lemma process_documents_no_pages:
  "load_pdf e p s = [] \<Longrightarrow> process_documents e p s = Some []"
  by (simp add: process_documents_def)

lemma load_pdf_nonempty:
  "load_pdf e p s \<noteq> [] \<Longrightarrow> \<exists>f. fs s p = Some f \<and> readable f"
  by (auto simp: load_pdf_def split: option.splits if_splits)

lemma docs_nonempty_file:
  assumes "process_documents e p s = Some docs" "docs \<noteq> []"
  shows "\<exists>f. fs s p = Some f \<and> readable f"
proof -
  have "load_pdf e p s \<noteq> []" using assms by (auto simp: process_documents_def)
  then show ?thesis by (rule load_pdf_nonempty)
qed

lemma not_processed_ledger:
  assumes "is_file_processed e p s = Inr b" "fs s p = Some f"
  shows "\<exists>m. load_index_metadata s = Ledger m"
  using assms by (cases "load_index_metadata s") (auto simp: is_file_processed_def Let_def)

lemma missing_ledger_not_processed:
  "ledger_file s = Missing \<Longrightarrow> is_file_processed e p s = Inr False"
  by (simp add: is_file_processed_def load_index_metadata_def Let_def)

lemma add_documents_fresh:
  assumes np: "is_file_processed e p s = Inr False"
    and pd: "process_documents e p s = Some docs" and ne: "docs \<noteq> []"
    and ok: "\<not> insert_fails e" "\<not> flush_fails e" "\<not> load_fails e"
  shows "\<exists>m f. load_index_metadata s = Ledger m \<and> fs s p = Some f \<and> readable f \<and>
           add_documents e p s =
             Some (True,
               save_index_metadata e
                 (m\<lparr>processed_files := (processed_files m)(abspath e p \<mapsto>
                       \<lparr>file_hash = Some (md5 e (content f)), chunk_count = length docs,
                        processed_date = st_mtime f, file_size = length (content f)\<rparr>),
                    collection_stats :=
                      (if stats_fails e then StatsError
                       else Entities (length (rows s) + length docs))\<rparr>)
                 (s\<lparr>embed_log := embed_log s @ map doc_text docs,
                    rows := rows s @ embed_rows e docs,
                    loaded := True\<rparr>))"
proof -
  obtain f where f: "fs s p = Some f" "readable f" using docs_nonempty_file [OF pd ne] by blast
  obtain m where m: "load_index_metadata s = Ledger m" using not_processed_ledger [OF np f(1)] by blast
  have lm: "load_index_metadata
              (s\<lparr>embed_log := embed_log s @ map doc_text docs,
                 rows := rows s @ embed_rows e docs, loaded := True\<rparr>) = Ledger m"
    using m by (simp add: load_index_metadata_def)
  have "add_documents e p s = Some (True,
               save_index_metadata e
                 (m\<lparr>processed_files := (processed_files m)(abspath e p \<mapsto>
                       \<lparr>file_hash = Some (md5 e (content f)), chunk_count = length docs,
                        processed_date = st_mtime f, file_size = length (content f)\<rparr>),
                    collection_stats :=
                      (if stats_fails e then StatsError
                       else Entities (length (rows s) + length docs))\<rparr>)
                 (s\<lparr>embed_log := embed_log s @ map doc_text docs,
                    rows := rows s @ embed_rows e docs,
                    loaded := True\<rparr>))"
    using np pd ne ok f lm
    by (simp add: add_documents_def Let_def mark_file_as_processed_def get_file_hash_def
        get_collection_stats_def embed_rows_def)
  with m f show ?thesis by blast
qed

section \<open>The sample world, evaluated\<close>

lemma demo_page1_chunks: "chunk_text demo_page1 1000 200 = Some [demo_page1]"
  by code_simp

lemma demo_page2_chunks: "chunk_text demo_page2 1000 200 = Some [demo_page2]"
  by code_simp

lemma demo_page_strip: "strip demo_page1 = demo_page1" "strip demo_page2 = demo_page2"
  by code_simp+

lemma demo_page_length: "length demo_page1 = 70" "length demo_page2 = 76"
  by (simp_all add: demo_page1_def demo_page2_def)

lemma demo_basename: "basename demo_path = ''heart.pdf''"
  by code_simp

lemma demo_page_chunks:
  "page_chunks \<lparr>doc_text = demo_page1, source = src, page_num = n\<rparr> =
     Some [\<lparr>doc_text = demo_page1, source = src, page_num = n, chunk_id = 0\<rparr>]"
  "page_chunks \<lparr>doc_text = demo_page2, source = src, page_num = n\<rparr> =
     Some [\<lparr>doc_text = demo_page2, source = src, page_num = n, chunk_id = 0\<rparr>]"
  by (simp_all add: page_chunks_def demo_page1_chunks demo_page2_chunks demo_page_strip
      demo_page_length)

lemma demo_process_documents:
  assumes "extract_pages e = extract_pages demo_env" "fs s demo_path = Some demo_file"
  shows "process_documents e demo_path s = Some demo_chunks"
proof -
  have ne: "demo_page1 \<noteq> []" "demo_page2 \<noteq> []"
    by (simp_all add: demo_page1_def demo_page2_def)
  have "load_pdf e demo_path s =
          [\<lparr>doc_text = demo_page1, source = ''heart.pdf'', page_num = 1\<rparr>,
           \<lparr>doc_text = demo_page2, source = ''heart.pdf'', page_num = 2\<rparr>]"
    using assms ne
    by (simp add: load_pdf_def demo_file_def demo_env_def demo_basename demo_page_strip)
  then show ?thesis
    by (simp add: process_documents_def demo_page_chunks demo_chunks_def)
qed

lemma demo_add_documents:
  "add_documents demo_env demo_path demo_state = Some (True, demo_indexed_state)"
proof -
  have e: "\<not> insert_fails demo_env" "\<not> flush_fails demo_env" "\<not> load_fails demo_env"
    by (simp_all add: demo_env_def)
  have p: "process_documents demo_env demo_path demo_state = Some demo_chunks"
    by (rule demo_process_documents) (simp_all add: demo_state_def)
  have n: "demo_chunks \<noteq> []" by (simp add: demo_chunks_def)
  have np: "is_file_processed demo_env demo_path demo_state = Inr False"
    by (rule missing_ledger_not_processed) (simp add: demo_state_def)
  from add_documents_fresh [OF np p n e]
  show ?thesis
    by (simp add: demo_state_def demo_indexed_state_def demo_env_def demo_file_def
        demo_entry_def demo_rows_def demo_chunks_def load_index_metadata_def
        save_index_metadata_def embed_rows_def generate_embedding_def eval_nat_numeral)
qed

lemma demo_failing_add_documents:
  "add_documents demo_failing_env demo_path demo_state = Some (True, demo_degraded_state)"
proof -
  have e: "\<not> insert_fails demo_failing_env" "\<not> flush_fails demo_failing_env"
    "\<not> load_fails demo_failing_env"
    by (simp_all add: demo_env_def demo_failing_env_def)
  have p: "process_documents demo_failing_env demo_path demo_state = Some demo_chunks"
    by (rule demo_process_documents) (simp_all add: demo_state_def demo_failing_env_def)
  have n: "demo_chunks \<noteq> []" by (simp add: demo_chunks_def)
  have np: "is_file_processed demo_failing_env demo_path demo_state = Inr False"
    by (rule missing_ledger_not_processed) (simp add: demo_state_def)
  have neq: "demo_page1 \<noteq> demo_page2" by (simp add: demo_page1_def demo_page2_def)
  from add_documents_fresh [OF np p n e]
  show ?thesis using neq
    by (simp add: demo_state_def demo_indexed_state_def demo_degraded_state_def
        demo_failing_env_def demo_env_def demo_file_def
        demo_entry_def demo_chunks_def load_index_metadata_def
        save_index_metadata_def embed_rows_def generate_embedding_def eval_nat_numeral)
qed

lemma demo_insert_failing_add_documents:
  "add_documents demo_insert_failing_env demo_path demo_state =
     Some (False, demo_state\<lparr>embed_log := [demo_page1, demo_page2]\<rparr>)"
proof -
  have p: "process_documents demo_insert_failing_env demo_path demo_state = Some demo_chunks"
    by (rule demo_process_documents) (simp_all add: demo_state_def demo_insert_failing_env_def)
  have np: "is_file_processed demo_insert_failing_env demo_path demo_state = Inr False"
    by (rule missing_ledger_not_processed) (simp add: demo_state_def)
  have "insert_fails demo_insert_failing_env" by (simp add: demo_insert_failing_env_def)
  with p np show ?thesis
    by (simp add: add_documents_def Let_def demo_chunks_def demo_state_def)
qed

lemma demo_force_reindex:
  "force_reindex demo_env demo_path demo_indexed_state = Inr (Some (True, demo_reindexed_state))"
proof -
  let ?s1 = "demo_indexed_state\<lparr>ledger_file :=
               Stored (Ledger \<lparr>processed_files = Map.empty, collection_stats = Entities 2\<rparr>)\<rparr>"
  have fr: "force_reindex demo_env demo_path demo_indexed_state =
              Inr (add_documents demo_env demo_path ?s1)"
    by (simp add: force_reindex_def load_index_metadata_def demo_indexed_state_def
        save_index_metadata_def demo_env_def Let_def)
  have e: "\<not> insert_fails demo_env" "\<not> flush_fails demo_env" "\<not> load_fails demo_env"
    by (simp_all add: demo_env_def)
  have p: "process_documents demo_env demo_path ?s1 = Some demo_chunks"
    by (rule demo_process_documents) (simp_all add: demo_indexed_state_def)
  have n: "demo_chunks \<noteq> []" by (simp add: demo_chunks_def)
  have np: "is_file_processed demo_env demo_path ?s1 = Inr False"
    by (simp add: is_file_processed_def load_index_metadata_def demo_indexed_state_def Let_def)
  from add_documents_fresh [OF np p n e]
  have "add_documents demo_env demo_path ?s1 = Some (True, demo_reindexed_state)"
    by (simp add: demo_indexed_state_def demo_reindexed_state_def
        demo_env_def demo_file_def demo_rows_def demo_entry_def
        demo_chunks_def load_index_metadata_def
        save_index_metadata_def embed_rows_def generate_embedding_def eval_nat_numeral)
  with fr show ?thesis by simp
qed

section \<open>Indexer properties\<close>

text \<open>
  Claim C1, as stated, on the sample PDF when the embedding call fails for the chunk of
  page 2: \<open>add_documents\<close> does not abort. It returns \<open>True\<close>, and the row of that
  chunk is stored with the all-zero vector.
\<close>

theorem embedding_failure_counterexample:
  "embed_content demo_failing_env (doc_text (demo_chunks ! 1)) = None \<and>
   add_documents demo_failing_env demo_path demo_state = Some (True, demo_degraded_state) \<and>
   embedding (rows demo_degraded_state ! 1) = zero_vector"
  using demo_failing_add_documents
  by (simp add: demo_failing_env_def demo_chunks_def demo_degraded_state_def)

text \<open>
  Claim C1, amended. \<open>add_documents\<close> has no best-effort switch and an embedding
  failure never aborts it: for a file that is not yet recorded and yields at least one
  chunk, when insert, flush and load succeed, the call returns \<open>True\<close> and has
  inserted one row per chunk, in order, each with the vector the embedding call returned,
  or with the 768-dimensional zero vector when that call failed; every chunk was sent to
  the embedding call once.
\<close>

theorem embedding_failure_keeps_zero_vector:
  assumes "is_file_processed e p s = Inr False"
    and "process_documents e p s = Some docs" and "docs \<noteq> []"
    and "\<not> insert_fails e" and "\<not> flush_fails e" and "\<not> load_fails e"
  shows "\<exists>s'. add_documents e p s = Some (True, s') \<and>
           rows s' = rows s @
             map (\<lambda>d. \<lparr>doc_text = doc_text d, source = source d, page_num = page_num d,
                       chunk_id = chunk_id d,
                       embedding = (case embed_content e (doc_text d) of
                                      Some v \<Rightarrow> v
                                    | None \<Rightarrow> zero_vector)\<rparr>) docs \<and>
           embed_log s' = embed_log s @ map doc_text docs"
  using add_documents_fresh [OF assms]
  by (auto simp: save_index_metadata_def embed_rows_def generate_embedding_def)

theorem embedding_failure_keeps_zero_vector_witness:
  "is_file_processed demo_failing_env demo_path demo_state = Inr False \<and>
   process_documents demo_failing_env demo_path demo_state = Some demo_chunks \<and>
   demo_chunks \<noteq> [] \<and>
   \<not> insert_fails demo_failing_env \<and> \<not> flush_fails demo_failing_env \<and>
   \<not> load_fails demo_failing_env \<and>
   (\<exists>s'. add_documents demo_failing_env demo_path demo_state = Some (True, s') \<and>
      rows s' =
        [\<lparr>doc_text = demo_page1, source = ''heart.pdf'', page_num = 1, chunk_id = 0,
          embedding = demo_vector\<rparr>,
         \<lparr>doc_text = demo_page2, source = ''heart.pdf'', page_num = 2, chunk_id = 0,
          embedding = zero_vector\<rparr>] \<and>
      embed_log s' = [demo_page1, demo_page2])"
proof -
  have e: "\<not> insert_fails demo_failing_env" "\<not> flush_fails demo_failing_env"
    "\<not> load_fails demo_failing_env"
    by (simp_all add: demo_env_def demo_failing_env_def)
  have p: "process_documents demo_failing_env demo_path demo_state = Some demo_chunks"
    by (rule demo_process_documents) (simp_all add: demo_state_def demo_failing_env_def)
  have n: "demo_chunks \<noteq> []" by (simp add: demo_chunks_def)
  have np: "is_file_processed demo_failing_env demo_path demo_state = Inr False"
    by (rule missing_ledger_not_processed) (simp add: demo_state_def)
  have neq: "demo_page1 \<noteq> demo_page2" by (simp add: demo_page1_def demo_page2_def)
  from embedding_failure_keeps_zero_vector [OF np p n e] e p n np neq
  show ?thesis
    by (simp add: demo_chunks_def demo_failing_env_def demo_env_def demo_state_def)
qed

text \<open>
  Claim C3, as stated, on the sample PDF when the embedding call fails for the chunk of
  page 2: the failure is not a failure of the run. \<open>add_documents\<close> returns \<open>True\<close>
  and the ledger, empty before, has the entry of the file.
\<close>

theorem ledger_marked_despite_embedding_failure:
  "embed_content demo_failing_env demo_page2 = None \<and>
   map_option fst (add_documents demo_failing_env demo_path demo_state) = Some True \<and>
   map_option (\<lambda>r. list_processed_files (snd r) demo_path)
     (add_documents demo_failing_env demo_path demo_state) = Some (Some demo_entry) \<and>
   list_processed_files demo_state demo_path = None"
  using demo_failing_add_documents
  by (simp add: demo_failing_env_def demo_degraded_state_def demo_indexed_state_def
      demo_state_def list_processed_files_def load_index_metadata_def)

text \<open>
  Claim C3, amended. In a run of \<open>add_documents\<close> that returns, the ledger file is
  changed only if the batch insert and the flush both succeeded (the rows of all chunks
  are then in the collection) and the call returns \<open>True\<close>. When the file was not
  already recorded and extraction yields no page, or the insert fails, or the flush
  fails, the call returns \<open>False\<close> and the ledger file is unchanged. A failed
  embedding call is not among these failures.
\<close>

theorem ledger_written_only_after_flush:
  assumes "add_documents e p s = Some (ok, s')"
  shows "(ledger_file s' \<noteq> ledger_file s \<longrightarrow>
            ok \<and> \<not> insert_fails e \<and> \<not> flush_fails e \<and>
            (\<exists>docs. process_documents e p s = Some docs \<and> docs \<noteq> [] \<and>
               rows s' = rows s @ embed_rows e docs)) \<and>
         (is_file_processed e p s \<noteq> Inr True \<and>
            (load_pdf e p s = [] \<or> insert_fails e \<or> flush_fails e) \<longrightarrow>
            \<not> ok \<and> ledger_file s' = ledger_file s)"
proof (cases "is_file_processed e p s")
  case (Inl err)
  with assms show ?thesis by (auto simp: add_documents_def)
next
  case (Inr b)
  show ?thesis
  proof (cases b)
    case True
    with Inr assms show ?thesis
      by (auto simp: add_documents_def is_loaded_def split: coll_stats.splits if_splits)
  next
    case False
    obtain docs where pd: "process_documents e p s = Some docs"
      using process_documents_returns by blast
    have empty: "load_pdf e p s = [] \<Longrightarrow> docs = []"
      using pd process_documents_no_pages [of e p s] by simp
    show ?thesis
    proof (cases "docs = [] \<or> insert_fails e \<or> flush_fails e \<or> load_fails e")
      case True
      with Inr False pd assms empty show ?thesis
        by (auto simp: add_documents_def Let_def split: if_splits)
    next
      case ok: False
      then have ne: "docs \<noteq> []" and fl: "\<not> insert_fails e" "\<not> flush_fails e" "\<not> load_fails e"
        by auto
      from add_documents_fresh [OF _ pd ne fl] Inr False assms
      have "ok" "rows s' = rows s @ embed_rows e docs"
        by (auto simp: save_index_metadata_def split: if_splits)
      with pd ne fl Inr False empty show ?thesis by auto
    qed
  qed
qed

theorem ledger_written_only_after_flush_witness:
  "add_documents demo_env demo_path demo_state = Some (True, demo_indexed_state) \<and>
   ledger_file demo_indexed_state \<noteq> ledger_file demo_state \<and>
   \<not> insert_fails demo_env \<and> \<not> flush_fails demo_env \<and>
   rows demo_indexed_state = rows demo_state @ embed_rows demo_env demo_chunks \<and>
   add_documents demo_insert_failing_env demo_path demo_state =
     Some (False, demo_state\<lparr>embed_log := [demo_page1, demo_page2]\<rparr>) \<and>
   is_file_processed demo_insert_failing_env demo_path demo_state \<noteq> Inr True \<and>
   insert_fails demo_insert_failing_env \<and>
   ledger_file (demo_state\<lparr>embed_log := [demo_page1, demo_page2]\<rparr>) = ledger_file demo_state"
proof -
  have p: "process_documents demo_env demo_path demo_state = Some demo_chunks"
    by (rule demo_process_documents) (simp_all add: demo_state_def)
  have np: "is_file_processed demo_insert_failing_env demo_path demo_state = Inr False"
    by (rule missing_ledger_not_processed) (simp add: demo_state_def)
  from ledger_written_only_after_flush [OF demo_add_documents]
       ledger_written_only_after_flush [OF demo_insert_failing_add_documents]
       demo_add_documents demo_insert_failing_add_documents p np
  show ?thesis
    by (simp add: demo_indexed_state_def demo_state_def demo_insert_failing_env_def)
qed

text \<open>
  Claim C4, on the sample PDF, indexed once and not modified since.
  \<open>force_reindex\<close> removes the entry and runs the whole pipeline again (both chunks
  are embedded again), and returns \<open>True\<close>. The new entry's \<open>processed_date\<close> is the
  file's \<open>st_mtime\<close>, as it was in the removed entry: it is equal to the old one, not
  later.
\<close>

theorem force_reindex_keeps_processed_date:
  "fs demo_indexed_state demo_path = Some demo_file \<and>
   list_processed_files demo_indexed_state (abspath demo_env demo_path) = Some demo_entry \<and>
   force_reindex demo_env demo_path demo_indexed_state =
     Inr (Some (True, demo_reindexed_state)) \<and>
   embed_log demo_reindexed_state = embed_log demo_indexed_state @ [demo_page1, demo_page2] \<and>
   map_option processed_date
     (list_processed_files demo_reindexed_state (abspath demo_env demo_path)) =
   map_option processed_date
     (list_processed_files demo_indexed_state (abspath demo_env demo_path)) \<and>
   map_option processed_date
     (list_processed_files demo_reindexed_state (abspath demo_env demo_path)) =
   Some (st_mtime demo_file)"
  using demo_force_reindex
  by (simp add: demo_indexed_state_def demo_reindexed_state_def demo_env_def demo_entry_def
      demo_file_def list_processed_files_def load_index_metadata_def)

text \<open>
  Claim C9, as stated, says that the kept chunks of a page may have non-contiguous
  indices. They never have: among the chunks of a page only the last can have 50
  characters or fewer, so in the records of a page the \<open>chunk_id\<close> at position \<open>i\<close>
  is \<open>i\<close>.
\<close>

theorem kept_chunk_ids_contiguous:
  "\<not> (\<exists>d cs i. page_chunks d = Some cs \<and> i < length cs \<and> chunk_id (cs ! i) \<noteq> i)"
proof
  assume "\<exists>d cs i. page_chunks d = Some cs \<and> i < length cs \<and> chunk_id (cs ! i) \<noteq> i"
  then obtain d cs i where a: "page_chunks d = Some cs" "i < length cs" "chunk_id (cs ! i) \<noteq> i"
    by blast
  from page_chunks_prefix [of d] a(1) obtain chunks k where
    "cs = map (\<lambda>i. \<lparr>doc_text = chunks ! i, source = source d, page_num = page_num d,
                     chunk_id = i\<rparr>) [0..<k]" by auto
  with a(2,3) show False by simp
qed

text \<open>
  Claim C9, amended. \<open>process_documents\<close> returns the records of the pages, page
  after page. The records of a page are the first \<open>k\<close> chunks of that page's own
  chunk sequence, all of them or all but the last, and the \<open>chunk_id\<close> of each is its
  position in that sequence, counted from 0 on every page. So \<open>chunk_id\<close> is not unique
  across a document (both pages of the sample PDF have a chunk 0), and the indices kept on
  a page are contiguous.
\<close>

theorem chunk_id_is_page_position:
  "process_documents e p s =
     Some (concat (map (\<lambda>d. case page_chunks d of None \<Rightarrow> [] | Some cs \<Rightarrow> cs)
                     (load_pdf e p s))) \<and>
   (\<exists>chunks k. chunk_text (doc_text d) 1000 200 = Some chunks \<and>
      k \<le> length chunks \<and> length chunks \<le> Suc k \<and>
      page_chunks d =
        Some (map (\<lambda>i. \<lparr>doc_text = chunks ! i, source = source d, page_num = page_num d,
                         chunk_id = i\<rparr>) [0..<k])) \<and>
   process_documents demo_env demo_path demo_state = Some demo_chunks \<and>
   map page_num demo_chunks = [1, 2] \<and> map chunk_id demo_chunks = [0, 0]"
proof -
  have "process_documents demo_env demo_path demo_state = Some demo_chunks"
    by (rule demo_process_documents) (simp_all add: demo_state_def)
  then show ?thesis
    using page_chunks_prefix [of d]
    by (simp add: process_documents_def process_pages_total demo_chunks_def)
qed

text \<open>
  Claim C2, on the sample PDF and with every collaborator succeeding. The first
  \<open>add_documents\<close> indexes the file and records it. The second finds it recorded with
  the same hash, reads the statistics, and then reads \<open>self.collection.is_loaded\<close>: the
  \<open>AttributeError\<close> is caught by the \<open>try\<close> and the call returns \<open>False\<close>. Nothing is
  embedded or inserted a second time, the state is unchanged, and yet the call reports
  failure where the claim says success.
\<close>

theorem second_add_documents_returns_false:
  "add_documents demo_env demo_path demo_state = Some (True, demo_indexed_state) \<and>
   fs demo_indexed_state demo_path = fs demo_state demo_path \<and>
   is_file_processed demo_env demo_path demo_indexed_state = Inr True \<and>
   get_collection_stats demo_env demo_indexed_state = Entities 2 \<and>
   is_loaded demo_indexed_state = Inl AttributeError \<and>
   add_documents demo_env demo_path demo_indexed_state = Some (False, demo_indexed_state)"
proof -
  have p: "is_file_processed demo_env demo_path demo_indexed_state = Inr True"
    by (simp add: is_file_processed_def load_index_metadata_def get_file_hash_def Let_def
        demo_indexed_state_def demo_env_def demo_file_def demo_entry_def)
  have g: "get_collection_stats demo_env demo_indexed_state = Entities 2"
    by (simp add: get_collection_stats_def demo_env_def demo_indexed_state_def demo_rows_def)
  have "add_documents demo_env demo_path demo_indexed_state = Some (False, demo_indexed_state)"
    using p g by (simp add: add_documents_def is_loaded_def)
  with p g demo_add_documents show ?thesis
    by (simp add: is_loaded_def demo_indexed_state_def demo_state_def)
qed

text \<open>
  Claim C7. When the ledger file is missing or cannot be parsed, loading it yields the
  empty ledger and raises nothing, so \<open>_is_file_processed\<close> is false for every path, and
  \<open>add_documents\<close> runs as on a file never indexed: it extracts and chunks the file; with
  no chunk it returns \<open>False\<close> and changes nothing; with chunks, and insert, flush and
  load succeeding, it embeds and inserts every chunk, returns \<open>True\<close>, and the ledger it
  writes holds the entry of this file and no other.
\<close>

theorem ledger_missing_or_corrupt:
  assumes "ledger_file s = Missing \<or> ledger_file s = Unparseable"
  shows "load_index_metadata s =
           Ledger \<lparr>processed_files = Map.empty, collection_stats = EmptyStats\<rparr> \<and>
         (\<forall>e p. is_file_processed e p s = Inr False) \<and>
         (\<forall>e p. \<exists>docs. process_documents e p s = Some docs \<and>
            (docs = [] \<longrightarrow> add_documents e p s = Some (False, s)) \<and>
            (docs \<noteq> [] \<and> \<not> insert_fails e \<and> \<not> flush_fails e \<and> \<not> load_fails e \<longrightarrow>
               (\<exists>s' f. fs s p = Some f \<and> add_documents e p s = Some (True, s') \<and>
                  embed_log s' = embed_log s @ map doc_text docs \<and>
                  rows s' = rows s @ embed_rows e docs \<and>
                  (ledger_writable e \<longrightarrow>
                     list_processed_files s' =
                       [abspath e p \<mapsto>
                          \<lparr>file_hash = Some (md5 e (content f)), chunk_count = length docs,
                           processed_date = st_mtime f,
                           file_size = length (content f)\<rparr>]))))"
proof -
  have lm: "load_index_metadata s =
              Ledger \<lparr>processed_files = Map.empty, collection_stats = EmptyStats\<rparr>"
    using assms by (auto simp: load_index_metadata_def)
  have np: "is_file_processed e p s = Inr False" for e p
    using lm by (simp add: is_file_processed_def Let_def)
  have run: "\<exists>docs. process_documents e p s = Some docs \<and>
            (docs = [] \<longrightarrow> add_documents e p s = Some (False, s)) \<and>
            (docs \<noteq> [] \<and> \<not> insert_fails e \<and> \<not> flush_fails e \<and> \<not> load_fails e \<longrightarrow>
               (\<exists>s' f. fs s p = Some f \<and> add_documents e p s = Some (True, s') \<and>
                  embed_log s' = embed_log s @ map doc_text docs \<and>
                  rows s' = rows s @ embed_rows e docs \<and>
                  (ledger_writable e \<longrightarrow>
                     list_processed_files s' =
                       [abspath e p \<mapsto>
                          \<lparr>file_hash = Some (md5 e (content f)), chunk_count = length docs,
                           processed_date = st_mtime f,
                           file_size = length (content f)\<rparr>])))" for e p
  proof -
    obtain docs where pd: "process_documents e p s = Some docs"
      using process_documents_returns by blast
    have none: "docs = [] \<Longrightarrow> add_documents e p s = Some (False, s)"
      using np [of e p] pd by (simp add: add_documents_def)
    have some: "\<exists>s' f. fs s p = Some f \<and> add_documents e p s = Some (True, s') \<and>
                  embed_log s' = embed_log s @ map doc_text docs \<and>
                  rows s' = rows s @ embed_rows e docs \<and>
                  (ledger_writable e \<longrightarrow>
                     list_processed_files s' =
                       [abspath e p \<mapsto>
                          \<lparr>file_hash = Some (md5 e (content f)), chunk_count = length docs,
                           processed_date = st_mtime f,
                           file_size = length (content f)\<rparr>])"
      if ne: "docs \<noteq> []" and ok: "\<not> insert_fails e" "\<not> flush_fails e" "\<not> load_fails e"
      using add_documents_fresh [OF np pd ne ok] lm
      by (auto simp: save_index_metadata_def list_processed_files_def load_index_metadata_def)
    from pd none some show ?thesis by blast
  qed
  from lm np run show ?thesis by blast
qed

theorem ledger_missing_or_corrupt_witness:
  "ledger_file demo_corrupt_state = Unparseable \<and>
   fs demo_corrupt_state demo_path \<noteq> None \<and>
   load_index_metadata demo_corrupt_state =
     Ledger \<lparr>processed_files = Map.empty, collection_stats = EmptyStats\<rparr> \<and>
   is_file_processed demo_env demo_path demo_corrupt_state = Inr False \<and>
   process_documents demo_env demo_path demo_corrupt_state = Some demo_chunks \<and>
   demo_chunks \<noteq> [] \<and>
   \<not> insert_fails demo_env \<and> \<not> flush_fails demo_env \<and> \<not> load_fails demo_env \<and>
   ledger_writable demo_env \<and>
   map_option fst (add_documents demo_env demo_path demo_corrupt_state) = Some True \<and>
   map_option (\<lambda>r. rows (snd r)) (add_documents demo_env demo_path demo_corrupt_state) =
     Some (demo_rows @ demo_rows) \<and>
   map_option (\<lambda>r. list_processed_files (snd r))
     (add_documents demo_env demo_path demo_corrupt_state) =
     Some [demo_path \<mapsto> demo_entry]"
proof -
  have u: "ledger_file demo_corrupt_state = Unparseable"
    by (simp add: demo_corrupt_state_def)
  have f: "fs demo_corrupt_state demo_path = Some demo_file"
    by (simp add: demo_corrupt_state_def demo_indexed_state_def)
  have p: "process_documents demo_env demo_path demo_corrupt_state = Some demo_chunks"
    using f by (intro demo_process_documents) simp_all
  have n: "demo_chunks \<noteq> []" by (simp add: demo_chunks_def)
  have e: "\<not> insert_fails demo_env" "\<not> flush_fails demo_env" "\<not> load_fails demo_env"
    "ledger_writable demo_env"
    by (simp_all add: demo_env_def)
  have r: "rows demo_corrupt_state @ embed_rows demo_env demo_chunks = demo_rows @ demo_rows"
    by (simp add: demo_corrupt_state_def demo_indexed_state_def demo_rows_def demo_chunks_def
        embed_rows_def generate_embedding_def demo_env_def)
  have en: "\<lparr>file_hash = Some (md5 demo_env (content demo_file)),
             chunk_count = length demo_chunks, processed_date = st_mtime demo_file,
             file_size = length (content demo_file)\<rparr> = demo_entry"
    by (simp add: demo_env_def demo_file_def demo_chunks_def demo_entry_def)
  have a: "abspath demo_env demo_path = demo_path" by (simp add: demo_env_def)
  from ledger_missing_or_corrupt [of demo_corrupt_state] u
  have t: "load_index_metadata demo_corrupt_state =
             Ledger \<lparr>processed_files = Map.empty, collection_stats = EmptyStats\<rparr>"
    "is_file_processed demo_env demo_path demo_corrupt_state = Inr False"
    "\<exists>docs. process_documents demo_env demo_path demo_corrupt_state = Some docs \<and>
       (docs \<noteq> [] \<and> \<not> insert_fails demo_env \<and> \<not> flush_fails demo_env \<and>
        \<not> load_fails demo_env \<longrightarrow>
          (\<exists>s' f. fs demo_corrupt_state demo_path = Some f \<and>
             add_documents demo_env demo_path demo_corrupt_state = Some (True, s') \<and>
             embed_log s' = embed_log demo_corrupt_state @ map doc_text docs \<and>
             rows s' = rows demo_corrupt_state @ embed_rows demo_env docs \<and>
             (ledger_writable demo_env \<longrightarrow>
                list_processed_files s' =
                  [abspath demo_env demo_path \<mapsto>
                     \<lparr>file_hash = Some (md5 demo_env (content f)), chunk_count = length docs,
                      processed_date = st_mtime f, file_size = length (content f)\<rparr>])))"
    by blast+
  from t(3) p n e f obtain s' where
    s': "add_documents demo_env demo_path demo_corrupt_state = Some (True, s')"
      "rows s' = rows demo_corrupt_state @ embed_rows demo_env demo_chunks"
      "list_processed_files s' =
         [abspath demo_env demo_path \<mapsto>
            \<lparr>file_hash = Some (md5 demo_env (content demo_file)),
             chunk_count = length demo_chunks, processed_date = st_mtime demo_file,
             file_size = length (content demo_file)\<rparr>]"
    by auto
  from s' have "map_option fst (add_documents demo_env demo_path demo_corrupt_state) = Some True"
    "map_option (\<lambda>r. rows (snd r)) (add_documents demo_env demo_path demo_corrupt_state) =
       Some (demo_rows @ demo_rows)"
    "map_option (\<lambda>r. list_processed_files (snd r))
       (add_documents demo_env demo_path demo_corrupt_state) = Some [demo_path \<mapsto> demo_entry]"
    by (simp_all only: option.map fst_conv snd_conv r en a)
  with u f t(1,2) p n e show ?thesis by simp
qed

end
